theory Spec2Isabelle
  imports Complex_Main
begin

section \<open>Bootstrap: \<open>cmd/argot/main.go\<close>\<close>

subsection \<open>Verbosity bridge: \<open>logruslevel\<close>\<close>

text \<open>
  \<open>logrus.Level\<close> and the exported table \<open>logrus.AllLevels\<close>, as declared by
  logrus v1.6.0 (the version pinned in \<open>go.mod\<close>): seven levels, most severe first.
\<close>

datatype Level =
  PanicLevel | FatalLevel | ErrorLevel | WarnLevel | InfoLevel | DebugLevel | TraceLevel

definition AllLevels :: "Level list" where
  "AllLevels =
     [PanicLevel, FatalLevel, ErrorLevel, WarnLevel, InfoLevel, DebugLevel, TraceLevel]"

text \<open>A Go slice read \<open>xs[i]\<close> panics when the index is out of range.\<close>

datatype panic = IndexOutOfRange

definition index :: "'a list \<Rightarrow> int \<Rightarrow> panic + 'a" where
  "index xs i =
     (if 0 \<le> i \<and> i < int (length xs) then Inr (xs ! nat i) else Inl IndexOutOfRange)"

text \<open>
  \<^verbatim>\<open>
  func logruslevel(v int) (l logrus.Level) {
      if v >= 0 && v <= 5 { l = logrus.AllLevels[v] }
      else if v > 5       { l = logrus.DebugLevel }
      else                { l = logrus.PanicLevel }
      return
  }
  \<close>
\<close>

definition logruslevel :: "int \<Rightarrow> panic + Level" where
  "logruslevel v =
     (if v \<ge> 0 \<and> v \<le> 5 then index AllLevels v
      else if v > 5 then Inr DebugLevel
      else Inr PanicLevel)"

subsection \<open>Kubernetes client selection: \<open>kubeclient\<close>\<close>

text \<open>
  Go errors are carried as their message. The three client-go entry points that
  \<open>kubeclient\<close> calls are collaborators outside this repository; they are parameters of
  the model, and every call made to them is recorded in order.
\<close>

type_synonym error = string

record ('cfg, 'cli) k8s =
  BuildConfigFromFlags :: "string \<Rightarrow> string \<Rightarrow> error + 'cfg"
  InClusterConfig :: "error + 'cfg"
  NewForConfig :: "'cfg \<Rightarrow> error + 'cli"

datatype 'cfg k8s_call =
  CallBuildConfigFromFlags string string
| CallInClusterConfig
| CallNewForConfig 'cfg

text \<open>
  \<^verbatim>\<open>
  func kubeclient(kubeconfigpath string, incluster bool) (*kubernetes.Clientset, error) {
      kubeconfig, err := func() (*rest.Config, error) {
          if kubeconfigpath != "" && !incluster {
              return clientcmd.BuildConfigFromFlags("", kubeconfigpath)
          }
          return rest.InClusterConfig()
      }()
      if err != nil { return nil, err }
      return kubernetes.NewForConfig(kubeconfig)
  }
  \<close>
\<close>

definition restconfig ::
  "('cfg, 'cli) k8s \<Rightarrow> string \<Rightarrow> bool \<Rightarrow> (error + 'cfg) \<times> 'cfg k8s_call list" where
  "restconfig k kubeconfigpath incluster =
     (if kubeconfigpath \<noteq> [] \<and> \<not> incluster
      then (BuildConfigFromFlags k [] kubeconfigpath,
            [CallBuildConfigFromFlags [] kubeconfigpath])
      else (InClusterConfig k, [CallInClusterConfig]))"

definition kubeclient ::
  "('cfg, 'cli) k8s \<Rightarrow> string \<Rightarrow> bool \<Rightarrow> (error + 'cli) \<times> 'cfg k8s_call list" where
  "kubeclient k kubeconfigpath incluster =
     (case restconfig k kubeconfigpath incluster of
        (Inl err, calls) \<Rightarrow> (Inl err, calls)
      | (Inr kubeconfig, calls) \<Rightarrow>
          (NewForConfig k kubeconfig, calls @ [CallNewForConfig kubeconfig]))"

definition is_build_call :: "'cfg k8s_call \<Rightarrow> bool" where
  "is_build_call c = (case c of CallBuildConfigFromFlags _ _ \<Rightarrow> True | _ \<Rightarrow> False)"

subsection \<open>Origin secret configuration: \<open>originsecrets\<close>\<close>

text \<open>
  Modelled from the spec: the types of \<open>internal/cloudflare\<close> (\<open>OriginSecrets\<close> and its
  groups) are not part of the listing. The spec describes the configuration as an ordered
  list of groups, each naming one or more host-matching rules (an exact host or a
  wildcard) and one origin-secret reference \<open>namespace/name\<close>.
\<close>

type_synonym SecretRef = "string \<times> string"

datatype HostRule = Exact string | Wildcard string

record SecretGroup =
  rules :: "HostRule list"
  secret :: SecretRef

record OriginSecrets =
  groups :: "SecretGroup list"

text \<open>The Go zero value \<open>cloudflare.OriginSecrets{}\<close>: no groups.\<close>

definition OriginSecrets_zero :: OriginSecrets where
  "OriginSecrets_zero = \<lparr>groups = []\<rparr>"

text \<open>
  \<open>cloudflare.ParseOriginSecretsFile\<close> is a parameter; the second component of the
  result lists the paths handed to it, that is, the files the function tried to read.
  \<^verbatim>\<open>
  func originsecrets(originsecretspath string) (*cloudflare.OriginSecrets, error) {
      if len(originsecretspath) > 0 {
          return cloudflare.ParseOriginSecretsFile(originsecretspath)
      }
      return &cloudflare.OriginSecrets{}, nil
  }
  \<close>
\<close>

definition originsecrets ::
  "(string \<Rightarrow> error + OriginSecrets) \<Rightarrow> string \<Rightarrow> (error + OriginSecrets) \<times> string list" where
  "originsecrets ParseOriginSecretsFile originsecretspath =
     (if length originsecretspath > 0
      then (ParseOriginSecretsFile originsecretspath, [originsecretspath])
      else (Inr OriginSecrets_zero, []))"

subsection \<open>The \<open>couple\<close> command of \<open>main\<close>\<close>

text \<open>
  The flags that decide the control flow of the \<open>couple\<close> branch, and the outcomes of
  the calls it makes to the outside: \<open>flag.Parse\<close> of the standard library (\<open>None\<close>
  when it returns, \<open>Some status\<close> when it ends the process, which it does with status 2
  on a flag it does not know), \<open>net.Listen\<close> (given the addresses this process has
  bound already; \<open>None\<close> is success), the client-go entry points, the secret-file parser,
  and the value \<open>g.Run()\<close> returns once an actor of the run group has stopped.
\<close>

record flags =
  verbose :: int
  incluster :: bool
  kubeconfig :: string
  originconfig :: string
  debugaddr :: string
  debugenable :: bool
  metricsaddr :: string
  metricsenable :: bool
  connlimit :: int

record ('cfg, 'cli) world =
  FlagParse :: "int option"
  Listen :: "string list \<Rightarrow> string \<Rightarrow> error option"
  K8s :: "('cfg, 'cli) k8s"
  ParseOriginSecretsFile :: "string \<Rightarrow> error + OriginSecrets"
  GroupRun :: "error option"

text \<open>The five \<open>log.Fatalf\<close> calls of \<open>main\<close>, by format string.\<close>

datatype fatal =
  CannotOpenDebugListener error
| CannotOpenMetricsListener error
| FailedCreateKubeClient error
| FailedParseOriginSecrets error
| ReceivedFatalError error

text \<open>
  What the process does, in order. The calls to the outside carry their result;
  \<open>Stderr\<close> is an entry the logger has written to \<open>os.Stderr\<close>.
\<close>

datatype event =
  CallFlagParse
| SetLevel Level
| GoPanic panic
| TcpListen string "error option"
| LimitListener int
| MakeChanPanic int
| CreateKubeClient "error option"
| ReadOriginSecrets "error option"
| NewController "SecretGroup list"
| RunGroup
| Stderr fatal

text \<open>
  A stage yields the events it caused and \<open>Some status\<close> when it ended the process.
  \<open>andthen\<close> runs the next stage only when the process is still alive.
\<close>

type_synonym stage = "event list \<times> int option"

definition andthen :: "stage \<Rightarrow> stage \<Rightarrow> stage" where
  "andthen a b = (case snd a of Some st \<Rightarrow> a | None \<Rightarrow> (fst a @ fst b, snd b))"

text \<open>
  The logger, as logrus v1.6.0 has it: the levels are numbered from \<open>PanicLevel = 0\<close>,
  a level is enabled when the logger's level is at least that level, and \<open>Fatalf\<close>
  writes the entry only when \<open>FatalLevel\<close> is enabled, then ends the process with
  status 1 in either case. The \<open>os.Exit(1)\<close> that follows each \<open>log.Fatalf\<close> in
  the source gives the same status.
\<close>

fun level_num :: "Level \<Rightarrow> nat" where
  "level_num PanicLevel = 0"
| "level_num FatalLevel = 1"
| "level_num ErrorLevel = 2"
| "level_num WarnLevel = 3"
| "level_num InfoLevel = 4"
| "level_num DebugLevel = 5"
| "level_num TraceLevel = 6"

definition IsLevelEnabled :: "Level \<Rightarrow> Level \<Rightarrow> bool" where
  "IsLevelEnabled loggerlevel level = (level_num loggerlevel \<ge> level_num level)"

definition written :: "Level \<Rightarrow> fatal \<Rightarrow> event list" where
  "written loggerlevel m = (if IsLevelEnabled loggerlevel FatalLevel then [Stderr m] else [])"

definition Fatalf :: "Level \<Rightarrow> fatal \<Rightarrow> stage" where
  "Fatalf loggerlevel m = (written loggerlevel m, Some 1)"

text \<open>
  Lines 73--75: the verbosity is mirrored into the standard flag set, which is then
  parsed; the errors of \<open>flag.Set\<close> are dropped by the source.
\<close>

definition flag_stage :: "('cfg, 'cli) world \<Rightarrow> stage" where
  "flag_stage w = ([CallFlagParse], FlagParse w)"

text \<open>
  Lines 105--132: the profiling listener, only with \<open>--debug-enable\<close>.
  \<open>netutil.LimitListener(l, n)\<close> makes a channel of capacity \<open>n\<close>, which panics for
  a negative \<open>n\<close>; the Go runtime then ends the process with status 2.
\<close>

definition debug_stage :: "Level \<Rightarrow> flags \<Rightarrow> ('cfg, 'cli) world \<Rightarrow> stage" where
  "debug_stage lvl fl w =
     (if debugenable fl then
        (case Listen w [] (debugaddr fl) of
           Some err \<Rightarrow>
             andthen ([TcpListen (debugaddr fl) (Some err)], None)
               (Fatalf lvl (CannotOpenDebugListener err))
         | None \<Rightarrow>
             if connlimit fl < 0
             then ([TcpListen (debugaddr fl) None, MakeChanPanic (connlimit fl)], Some 2)
             else ([TcpListen (debugaddr fl) None, LimitListener (connlimit fl)], None))
      else ([], None))"

text \<open>
  Lines 133--161: the metrics listener, only with \<open>--metrics-enable\<close>. It is reached
  only after the profiling listener, when enabled, has been bound.
\<close>

definition bound_by_debug :: "flags \<Rightarrow> string list" where
  "bound_by_debug fl = (if debugenable fl then [debugaddr fl] else [])"

definition metrics_stage :: "Level \<Rightarrow> flags \<Rightarrow> ('cfg, 'cli) world \<Rightarrow> stage" where
  "metrics_stage lvl fl w =
     (if metricsenable fl then
        (case Listen w (bound_by_debug fl) (metricsaddr fl) of
           Some err \<Rightarrow>
             andthen ([TcpListen (metricsaddr fl) (Some err)], None)
               (Fatalf lvl (CannotOpenMetricsListener err))
         | None \<Rightarrow>
             if connlimit fl < 0
             then ([TcpListen (metricsaddr fl) None, MakeChanPanic (connlimit fl)], Some 2)
             else ([TcpListen (metricsaddr fl) None, LimitListener (connlimit fl)], None))
      else ([], None))"

text \<open>Lines 162--196: the Kubernetes client, the secret groups, the controller.\<close>

definition controller_stage :: "Level \<Rightarrow> flags \<Rightarrow> ('cfg, 'cli) world \<Rightarrow> stage" where
  "controller_stage lvl fl w =
     (case fst (kubeclient (K8s w) (kubeconfig fl) (incluster fl)) of
        Inl err \<Rightarrow>
          andthen ([CreateKubeClient (Some err)], None)
            (Fatalf lvl (FailedCreateKubeClient err))
      | Inr kclient \<Rightarrow>
          (case fst (originsecrets (ParseOriginSecretsFile w) (originconfig fl)) of
             Inl err \<Rightarrow>
               andthen ([CreateKubeClient None, ReadOriginSecrets (Some err)], None)
                 (Fatalf lvl (FailedParseOriginSecrets err))
           | Inr secretgroups \<Rightarrow>
               ([CreateKubeClient None, ReadOriginSecrets None,
                 NewController (groups secretgroups)], None)))"

text \<open>Lines 198--201: the run group; \<open>main\<close> returns when \<open>g.Run()\<close> gives no error.\<close>

definition run_stage :: "Level \<Rightarrow> ('cfg, 'cli) world \<Rightarrow> stage" where
  "run_stage lvl w =
     (case GroupRun w of
        Some err \<Rightarrow> andthen ([RunGroup], None) (Fatalf lvl (ReceivedFatalError err))
      | None \<Rightarrow> ([RunGroup], None))"

text \<open>Lines 87--201: the actors of the run group, then the run itself.\<close>

definition serve :: "Level \<Rightarrow> flags \<Rightarrow> ('cfg, 'cli) world \<Rightarrow> stage" where
  "serve lvl fl w =
     andthen (debug_stage lvl fl w)
       (andthen (metrics_stage lvl fl w)
          (andthen (controller_stage lvl fl w) (run_stage lvl w)))"

text \<open>
  Lines 72--202: the whole branch. Line 78 sets the logger's level from the verbosity; a
  panic of \<open>logruslevel\<close> would end the process there with status 2. The transport logger
  of \<open>--transport-log-enable\<close> receives the same level and is left out.
\<close>

definition couple :: "flags \<Rightarrow> ('cfg, 'cli) world \<Rightarrow> stage" where
  "couple fl w =
     andthen (flag_stage w)
       (case logruslevel (verbose fl) of
          Inl p \<Rightarrow> ([GoPanic p], Some 2)
        | Inr lvl \<Rightarrow> andthen ([SetLevel lvl], None) (serve lvl fl w))"

text \<open>
  The startup failures of the error taxonomy, as events: a listener that cannot be bound,
  a Kubernetes client that cannot be built, a secret file that cannot be parsed; and the
  fatal entry that reports each of them.
\<close>

fun startup_failure_event :: "event \<Rightarrow> bool" where
  "startup_failure_event (TcpListen a (Some err)) = True"
| "startup_failure_event (CreateKubeClient (Some err)) = True"
| "startup_failure_event (ReadOriginSecrets (Some err)) = True"
| "startup_failure_event e = False"

fun reports :: "event \<Rightarrow> fatal \<Rightarrow> bool" where
  "reports (TcpListen a (Some err)) m =
     (m = CannotOpenDebugListener err \<or> m = CannotOpenMetricsListener err)"
| "reports (CreateKubeClient (Some err)) m = (m = FailedCreateKubeClient err)"
| "reports (ReadOriginSecrets (Some err)) m = (m = FailedParseOriginSecrets err)"
| "reports e m = False"

definition is_startup_fatal :: "fatal \<Rightarrow> bool" where
  "is_startup_fatal m = (case m of ReceivedFatalError _ \<Rightarrow> False | _ \<Rightarrow> True)"

definition is_stderr :: "event \<Rightarrow> bool" where
  "is_stderr e = (case e of Stderr m \<Rightarrow> True | _ \<Rightarrow> False)"

definition startup_stderr :: "event \<Rightarrow> bool" where
  "startup_stderr e = (case e of Stderr m \<Rightarrow> is_startup_fatal m | _ \<Rightarrow> False)"

text \<open>The same failures, as conditions on the flags and the outside.\<close>

definition client_fails :: "flags \<Rightarrow> ('cfg, 'cli) world \<Rightarrow> bool" where
  "client_fails fl w = isl (fst (kubeclient (K8s w) (kubeconfig fl) (incluster fl)))"

definition parse_fails :: "flags \<Rightarrow> ('cfg, 'cli) world \<Rightarrow> bool" where
  "parse_fails fl w = isl (fst (originsecrets (ParseOriginSecretsFile w) (originconfig fl)))"

text \<open>The conditions under which the branch gets past each listener.\<close>

definition debug_ok :: "flags \<Rightarrow> ('cfg, 'cli) world \<Rightarrow> bool" where
  "debug_ok fl w =
     (\<not> debugenable fl \<or> (Listen w [] (debugaddr fl) = None \<and> 0 \<le> connlimit fl))"

definition metrics_ok :: "flags \<Rightarrow> ('cfg, 'cli) world \<Rightarrow> bool" where
  "metrics_ok fl w =
     (\<not> metricsenable fl \<or>
      (Listen w (bound_by_debug fl) (metricsaddr fl) = None \<and> 0 \<le> connlimit fl))"

text \<open>
  A trace is calm when it holds no startup failure, no start of the run group and no
  written entry. A finished stage is sound when every startup failure in its trace ended
  the process with status 1 before the run group started, with the entry that reports it
  written last if the logger lets fatal entries through and nothing written otherwise.
\<close>

definition calm :: "event list \<Rightarrow> bool" where
  "calm tr = (\<forall>e \<in> set tr. \<not> startup_failure_event e \<and> e \<noteq> RunGroup \<and> \<not> is_stderr e)"

definition sound :: "Level \<Rightarrow> stage \<Rightarrow> bool" where
  "sound lvl s =
     ((\<forall>ev \<in> set (fst s). startup_failure_event ev \<longrightarrow>
         snd s = Some 1 \<and> RunGroup \<notin> set (fst s) \<and>
         (IsLevelEnabled lvl FatalLevel \<longrightarrow> (\<exists>m. reports ev m \<and> last (fst s) = Stderr m))) \<and>
      (RunGroup \<in> set (fst s) \<longrightarrow>
         (\<forall>e \<in> set (fst s). \<not> startup_failure_event e \<and> \<not> startup_stderr e)) \<and>
      (\<not> IsLevelEnabled lvl FatalLevel \<longrightarrow> (\<forall>e \<in> set (fst s). \<not> is_stderr e)))"

section \<open>The engine, as the specification describes it\<close>

text \<open>
  \<open>main.go\<close> only configures and starts \<open>internal/argotunnel\<close>; the work queue, the
  repair scheduler, the secret resolver and the tag builder are not part of the listing.
  Each definition of this section is written from the specification's words and says so.
\<close>

subsection \<open>Work Queue\<close>

type_synonym IngressKey = "string \<times> string"

text \<open>
  Modelled from the spec: the Work Queue of \<open>internal/argotunnel\<close> (spec 4.1).
  \<open>pending\<close> holds the keys waiting for a worker, in order; \<open>inflight\<close> holds one entry
  per hand-out to a worker that has not yet been marked done; \<open>redeliver\<close> remembers the
  keys enqueued again while in flight.
\<close>

record WorkQueue =
  pending :: "IngressKey list"
  inflight :: "IngressKey list"
  redeliver :: "IngressKey set"

definition WorkQueue_empty :: WorkQueue where
  "WorkQueue_empty = \<lparr>pending = [], inflight = [], redeliver = {}\<rparr>"

text \<open>
  Modelled from the spec: ``\<open>Enqueue(key)\<close> adds a key if not already pending or
  in-flight for that key''; an enqueue of an in-flight key is remembered for
  \<open>MarkDone\<close>.
\<close>

definition Enqueue :: "IngressKey \<Rightarrow> WorkQueue \<Rightarrow> WorkQueue" where
  "Enqueue k q =
     (if k \<in> set (inflight q) then q\<lparr>redeliver := insert k (redeliver q)\<rparr>
      else if k \<in> set (pending q) then q
      else q\<lparr>pending := pending q @ [k]\<rparr>)"

text \<open>
  Modelled from the spec: ``\<open>Dequeue() -> key\<close> blocks until a key is available'';
  \<open>None\<close> is the blocked call, otherwise the oldest pending key is handed out.
\<close>

definition Dequeue :: "WorkQueue \<Rightarrow> (IngressKey \<times> WorkQueue) option" where
  "Dequeue q =
     (case pending q of
        [] \<Rightarrow> None
      | k # ks \<Rightarrow> Some (k, q\<lparr>pending := ks, inflight := k # inflight q\<rparr>))"

text \<open>
  Modelled from the spec: ``if \<open>Enqueue\<close> was called again for that key while it was
  in-flight, it becomes eligible for redelivery immediately after \<open>MarkDone\<close>''. One
  call ends one hand-out; a call for a key that is not in flight changes nothing.
\<close>

definition MarkDone :: "IngressKey \<Rightarrow> WorkQueue \<Rightarrow> WorkQueue" where
  "MarkDone k q =
     (if k \<in> set (inflight q) then
        (if k \<in> redeliver q
         then q\<lparr>pending := pending q @ [k], inflight := remove1 k (inflight q),
                redeliver := redeliver q - {k}\<rparr>
         else q\<lparr>inflight := remove1 k (inflight q)\<rparr>)
      else q)"

text \<open>
  Modelled from the spec: the events that producers and workers interleave on the queue.
  A \<open>Dequeue\<close> on a queue with nothing pending stays blocked and leaves the queue as it
  is. \<open>qrun\<close> is the queue after a sequence of events, from the empty queue.
\<close>

datatype qevent = Enq IngressKey | Deq | Done IngressKey

fun qstep :: "WorkQueue \<Rightarrow> qevent \<Rightarrow> WorkQueue" where
  "qstep q (Enq k) = Enqueue k q"
| "qstep q Deq = (case Dequeue q of None \<Rightarrow> q | Some (k, q') \<Rightarrow> q')"
| "qstep q (Done k) = MarkDone k q"

definition qrun :: "qevent list \<Rightarrow> WorkQueue" where
  "qrun evs = foldl qstep WorkQueue_empty evs"

text \<open>
  Modelled from the spec: a hand-out of a key is a \<open>Dequeue\<close> that returns it.
  \<open>handouts k q evs\<close> counts the hand-outs of \<open>k\<close> while the events \<open>evs\<close> run
  from the queue \<open>q\<close>; \<open>owed k q\<close> counts the deliveries of \<open>k\<close> the queue still
  owes: its pending entries and its redelivery mark.
\<close>

definition hands_out :: "IngressKey \<Rightarrow> WorkQueue \<Rightarrow> qevent \<Rightarrow> bool" where
  "hands_out k q e =
     (e = Deq \<and> (case Dequeue q of None \<Rightarrow> False | Some (k', q') \<Rightarrow> k' = k))"

fun handouts :: "IngressKey \<Rightarrow> WorkQueue \<Rightarrow> qevent list \<Rightarrow> nat" where
  "handouts k q [] = 0"
| "handouts k q (e # evs) =
     (if hands_out k q e then 1 else 0) + handouts k (qstep q e) evs"

definition owed :: "IngressKey \<Rightarrow> WorkQueue \<Rightarrow> nat" where
  "owed k q = count_list (pending q) k + (if k \<in> redeliver q then 1 else 0)"

text \<open>The invariant of the reachable queues.\<close>

definition queue_inv :: "WorkQueue \<Rightarrow> bool" where
  "queue_inv q =
     (distinct (pending q) \<and> distinct (inflight q) \<and>
      set (pending q) \<inter> set (inflight q) = {} \<and> redeliver q \<subseteq> set (inflight q))"

subsection \<open>Repair Scheduler\<close>






subsection \<open>Tunnel status and the repair counter\<close>

text \<open>
  Modelled from the spec: the per-key state machine of spec 4.3 with the counter of
  \<open>RepairAttempt\<close>. A reported failure is one more attempt without success; the key
  becomes \<open>Failed\<close> once the count exceeds the configured step count, and every
  transition into \<open>Running\<close> resets the count. A pair of state and event for which the
  spec lists no transition leaves the status as it is.
\<close>

datatype TunnelState = Absent | Connecting | Running | Repairing | Terminating | Failed

record TunnelStatus =
  state :: TunnelState
  count :: nat

datatype tevent = Observed | Established | ConnectionFailed | Deleted | Closed

definition on_failure :: "nat \<Rightarrow> TunnelStatus \<Rightarrow> TunnelStatus" where
  "on_failure nsteps s =
     (if Suc (count s) > nsteps then \<lparr>state = Failed, count = Suc (count s)\<rparr>
      else \<lparr>state = Repairing, count = Suc (count s)\<rparr>)"

fun tstep :: "nat \<Rightarrow> TunnelStatus \<Rightarrow> tevent \<Rightarrow> TunnelStatus" where
  "tstep nsteps s Observed =
     (if state s = Absent then s\<lparr>state := Connecting\<rparr> else s)"
| "tstep nsteps s Established =
     (if state s \<in> {Connecting, Repairing, Failed} then \<lparr>state = Running, count = 0\<rparr> else s)"
| "tstep nsteps s ConnectionFailed =
     (if state s \<in> {Connecting, Running, Repairing} then on_failure nsteps s else s)"
| "tstep nsteps s Deleted =
     (if state s \<in> {Connecting, Running, Repairing, Failed} then s\<lparr>state := Terminating\<rparr>
      else s)"
| "tstep nsteps s Closed =
     (if state s = Terminating then \<lparr>state = Absent, count = 0\<rparr> else s)"

text \<open>
  Modelled from the spec: a key's record is created \<open>Absent\<close> with no repair attempt;
  \<open>trun\<close> applies a sequence of reconcile events; a key is unhealthy while it is
  \<open>Repairing\<close> or \<open>Failed\<close>.
\<close>

definition TunnelStatus_initial :: TunnelStatus where
  "TunnelStatus_initial = \<lparr>state = Absent, count = 0\<rparr>"

definition trun :: "nat \<Rightarrow> TunnelStatus \<Rightarrow> tevent list \<Rightarrow> TunnelStatus" where
  "trun nsteps s evs = foldl (tstep nsteps) s evs"

definition unhealthy :: "TunnelStatus \<Rightarrow> bool" where
  "unhealthy s = (state s = Repairing \<or> state s = Failed)"

text \<open>The key stays unhealthy along a run: after every event of it.\<close>

fun stays_unhealthy :: "nat \<Rightarrow> TunnelStatus \<Rightarrow> tevent list \<Rightarrow> bool" where
  "stays_unhealthy nsteps s [] = unhealthy s"
| "stays_unhealthy nsteps s (e # evs) =
     (unhealthy s \<and> stays_unhealthy nsteps (tstep nsteps s e) evs)"

subsection \<open>Secret Resolver\<close>

text \<open>
  Modelled from the spec: the resolver of spec 4.5. The groups are scanned once, in
  configured order: a group with an exact rule for the host ends the scan, the first
  group with a matching wildcard rule is kept as the candidate otherwise. The spec does
  not fix the wildcard syntax, so the wildcard test is the parameter \<open>wild\<close> (pattern,
  then host). The default secret reference is optional.
\<close>

datatype resolve_error = NoOriginSecret

definition exact_match :: "SecretGroup \<Rightarrow> string \<Rightarrow> bool" where
  "exact_match g host = (Exact host \<in> set (rules g))"

definition wildcard_match :: "(string \<Rightarrow> string \<Rightarrow> bool) \<Rightarrow> SecretGroup \<Rightarrow> string \<Rightarrow> bool" where
  "wildcard_match wild g host =
     list_ex (\<lambda>r. case r of Wildcard p \<Rightarrow> wild p host | Exact _ \<Rightarrow> False) (rules g)"

fun scan ::
  "(string \<Rightarrow> string \<Rightarrow> bool) \<Rightarrow> string \<Rightarrow> SecretGroup list \<Rightarrow> SecretRef option \<Rightarrow> SecretRef option"
  where
  "scan wild host [] candidate = candidate"
| "scan wild host (g # gs) candidate =
     (if exact_match g host then Some (secret g)
      else scan wild host gs
             (case candidate of
                Some c \<Rightarrow> Some c
              | None \<Rightarrow> if wildcard_match wild g host then Some (secret g) else None))"

definition resolve ::
  "(string \<Rightarrow> string \<Rightarrow> bool) \<Rightarrow> SecretGroup list \<Rightarrow> SecretRef option \<Rightarrow> string
     \<Rightarrow> resolve_error + SecretRef" where
  "resolve wild gs defaultsecret host =
     (case scan wild host gs None of
        Some s \<Rightarrow> Inr s
      | None \<Rightarrow> (case defaultsecret of Some d \<Rightarrow> Inr d | None \<Rightarrow> Inl NoOriginSecret))"

text \<open>
  Modelled from the spec: ``the Reconciler must not open a tunnel for that host''; an
  unresolved secret is logged and the key is left \<open>Absent\<close> (spec 4.3).
\<close>

datatype host_action = OpenTunnel string SecretRef | LeaveAbsent resolve_error

definition reconcile_host ::
  "(string \<Rightarrow> string \<Rightarrow> bool) \<Rightarrow> SecretGroup list \<Rightarrow> SecretRef option \<Rightarrow> string \<Rightarrow> host_action"
  where
  "reconcile_host wild gs defaultsecret host =
     (case resolve wild gs defaultsecret host of
        Inr s \<Rightarrow> OpenTunnel host s
      | Inl e \<Rightarrow> LeaveAbsent e)"

subsection \<open>Tag Builder\<close>








section \<open>Concrete inputs\<close>

definition k0 :: "(string, nat) k8s" where
  "k0 = \<lparr>BuildConfigFromFlags = (\<lambda>m p. Inr p), InClusterConfig = Inr ''in-cluster'',
         NewForConfig = (\<lambda>c. Inr (length c))\<rparr>"

definition fl0 :: flags where
  "fl0 = \<lparr>verbose = 3, incluster = True, kubeconfig = ''/root/.kube/config'',
          originconfig = ''/etc/argot/secrets.yaml'', debugaddr = ''127.0.0.1:8081'',
          debugenable = False, metricsaddr = ''0.0.0.0:8080'', metricsenable = True,
          connlimit = 512\<rparr>"

definition w0 :: "(string, nat) world" where
  "w0 = \<lparr>FlagParse = None, Listen = (\<lambda>bound a. None), K8s = k0,
         ParseOriginSecretsFile = (\<lambda>p. Inl ''yaml: unmarshal error''), GroupRun = None\<rparr>"

definition w1 :: "(string, nat) world" where
  "w1 = \<lparr>FlagParse = None, Listen = (\<lambda>bound a. if a \<in> set bound then Some ''address already in use'' else None),
         K8s = k0, ParseOriginSecretsFile = (\<lambda>p. Inr OriginSecrets_zero), GroupRun = None\<rparr>"

definition fl1 :: flags where
  "fl1 = \<lparr>verbose = 3, incluster = True, kubeconfig = [], originconfig = [],
          debugaddr = ''0.0.0.0:8080'', debugenable = True, metricsaddr = ''0.0.0.0:8080'',
          metricsenable = True, connlimit = 512\<rparr>"

definition wild_suffix :: "string \<Rightarrow> string \<Rightarrow> bool" where
  "wild_suffix p h =
     (case p of
        [] \<Rightarrow> False
      | c # sfx \<Rightarrow> c = CHR ''*'' \<and> length sfx < length h \<and> drop (length h - length sfx) h = sfx)"

definition gs0 :: "SecretGroup list" where
  "gs0 = [\<lparr>rules = [Wildcard ''*.example.com''], secret = (''edge'', ''wildcard-cert'')\<rparr>,
          \<lparr>rules = [Exact ''billing.example.com''], secret = (''edge'', ''billing-cert'')\<rparr>]"



section \<open>Verification: bootstrap\<close>

subsection \<open>Verbosity and client selection\<close>


text \<open>
  Claim C8. For every integer verbosity \<open>v\<close>, \<open>logruslevel\<close> returns a level and
  never panics: \<open>PanicLevel\<close> when \<open>v < 0\<close>, the \<open>v\<close>-th entry of
  \<open>logrus.AllLevels\<close> when \<open>0 \<le> v \<le> 5\<close> (the index is then inside the table), and
  \<open>DebugLevel\<close> when \<open>v > 5\<close>.
\<close>

theorem logruslevel_total:
  "(v < 0 \<longrightarrow> logruslevel v = Inr PanicLevel) \<and>
   (0 \<le> v \<and> v \<le> 5 \<longrightarrow> nat v < length AllLevels \<and> logruslevel v = Inr (AllLevels ! nat v)) \<and>
   (5 < v \<longrightarrow> logruslevel v = Inr DebugLevel) \<and>
   logruslevel v \<noteq> Inl IndexOutOfRange"
  by (auto simp: logruslevel_def index_def AllLevels_def)

theorem logruslevel_total_witness:
  "logruslevel (- 1) = Inr PanicLevel \<and>
   logruslevel 0 = Inr PanicLevel \<and>
   logruslevel 3 = Inr WarnLevel \<and>
   logruslevel 5 = Inr DebugLevel \<and>
   logruslevel 9 = Inr DebugLevel"
  using logruslevel_total [of "- 1"] logruslevel_total [of 0] logruslevel_total [of 3]
    logruslevel_total [of 5] logruslevel_total [of 9]
  by (simp add: AllLevels_def)

text \<open>
  Claim C10. \<open>kubeclient\<close> builds its REST configuration from the kubeconfig file
  exactly when the path is non-empty and \<open>incluster\<close> is false; in every other case it
  asks for the in-cluster configuration, so with \<open>--incluster\<close> a supplied path is
  never read.
\<close>

theorem kubeclient_config_source:
  "(path \<noteq> [] \<and> \<not> incl \<longrightarrow>
      restconfig k path incl =
        (BuildConfigFromFlags k [] path, [CallBuildConfigFromFlags [] path])) \<and>
   (incl \<or> path = [] \<longrightarrow>
      restconfig k path incl = (InClusterConfig k, [CallInClusterConfig])) \<and>
   ((\<exists>c \<in> set (snd (kubeclient k path incl)). is_build_call c) \<longleftrightarrow>
      path \<noteq> [] \<and> \<not> incl) \<and>
   (CallInClusterConfig \<in> set (snd (kubeclient k path incl)) \<longleftrightarrow>
      \<not> (path \<noteq> [] \<and> \<not> incl)) \<and>
   (incl \<longrightarrow> CallBuildConfigFromFlags [] path
      \<notin> set (snd (kubeclient k path incl)))"
  by (auto simp: kubeclient_def restconfig_def is_build_call_def split: sum.splits)

theorem kubeclient_config_source_witness:
  "snd (kubeclient k0 ''/home/u/.kube/config'' False) =
     [CallBuildConfigFromFlags [] ''/home/u/.kube/config'', CallNewForConfig ''/home/u/.kube/config''] \<and>
   snd (kubeclient k0 ''/home/u/.kube/config'' True) =
     [CallInClusterConfig, CallNewForConfig ''in-cluster''] \<and>
   snd (kubeclient k0 [] False) = [CallInClusterConfig, CallNewForConfig ''in-cluster''] \<and>
   (\<exists>c \<in> set (snd (kubeclient k0 ''/home/u/.kube/config'' False)). is_build_call c) \<and>
   CallInClusterConfig \<in> set (snd (kubeclient k0 ''/home/u/.kube/config'' True)) \<and>
   CallInClusterConfig \<in> set (snd (kubeclient k0 [] False))"
  using kubeclient_config_source [of "''/home/u/.kube/config''" False k0]
    kubeclient_config_source [of "''/home/u/.kube/config''" True k0]
    kubeclient_config_source [of "[]" False k0]
  by (simp add: kubeclient_def restconfig_def is_build_call_def k0_def)


subsection \<open>Startup of the \<open>couple\<close> command\<close>

lemma andthen_simps:
  "andthen (tr, Some st) b = (tr, Some st)"
  "andthen (tr, None) b = (tr @ fst b, snd b)"
  by (simp_all add: andthen_def)

lemma fst_andthen_None: "snd a = None \<Longrightarrow> fst (andthen a b) = fst a @ fst b"
  by (simp add: andthen_def)

lemma snd_andthen_None: "snd a = None \<Longrightarrow> snd (andthen a b) = snd b"
  by (simp add: andthen_def)

lemma written_cases:
  "(IsLevelEnabled lvl FatalLevel \<and> written lvl m = [Stderr m]) \<or>
   (\<not> IsLevelEnabled lvl FatalLevel \<and> written lvl m = [])"
  by (simp add: written_def)

lemma calm_simps:
  "calm []"
  "calm (e # tr) = (\<not> startup_failure_event e \<and> e \<noteq> RunGroup \<and> \<not> is_stderr e \<and> calm tr)"
  "calm (xs @ ys) = (calm xs \<and> calm ys)"
  by (auto simp: calm_def)

lemma not_failure_simps:
  "\<not> startup_failure_event (Stderr m)"
  "\<not> startup_failure_event RunGroup"
  "\<not> startup_failure_event (MakeChanPanic n)"
  by simp_all

lemma sound_calm: "calm tr \<Longrightarrow> sound lvl (tr, st)"
  by (auto simp: sound_def calm_def)

lemma sound_fail:
  assumes "startup_failure_event ev" "reports ev m" "calm pre"
  shows "sound lvl (pre @ ev # written lvl m, Some 1)"
proof -
  have ne: "ev \<noteq> RunGroup" using assms(1) by auto
  have ns: "\<not> is_stderr ev" using assms(1) by (cases ev) (simp_all add: is_stderr_def)
  from written_cases [of lvl m] show ?thesis
  proof (elim disjE conjE)
    assume en: "IsLevelEnabled lvl FatalLevel" and w: "written lvl m = [Stderr m]"
    show ?thesis
      unfolding sound_def w using assms ne ns en
      by (auto simp: calm_def)
  next
    assume en: "\<not> IsLevelEnabled lvl FatalLevel" and w: "written lvl m = []"
    show ?thesis
      unfolding sound_def w using assms ne ns en
      by (auto simp: calm_def)
  qed
qed

lemma sound_panic: "calm pre \<Longrightarrow> sound lvl (pre @ [MakeChanPanic n], st)"
  by (rule sound_calm) (simp add: calm_simps is_stderr_def)

lemma sound_prefix:
  assumes "calm pre" "sound lvl b"
  shows "sound lvl (pre @ fst b, snd b)"
proof -
  have last_eq: "last (pre @ fst b) = last (fst b)" if "ev \<in> set (fst b)" for ev
    using that by (cases "fst b") auto
  show ?thesis
    unfolding sound_def
  proof (intro conjI ballI impI)
    fix ev
    assume "ev \<in> set (fst (pre @ fst b, snd b))" and f: "startup_failure_event ev"
    then have m: "ev \<in> set (fst b)" using assms(1) by (auto simp: calm_def)
    from assms(2) m f have
      b1: "snd b = Some 1" and b2: "RunGroup \<notin> set (fst b)" and
      b3: "IsLevelEnabled lvl FatalLevel \<longrightarrow> (\<exists>m. reports ev m \<and> last (fst b) = Stderr m)"
      unfolding sound_def by blast+
    show "snd (pre @ fst b, snd b) = Some 1" using b1 by simp
    show "RunGroup \<notin> set (fst (pre @ fst b, snd b))"
      using b2 assms(1) by (auto simp: calm_def)
    show "\<exists>m. reports ev m \<and> last (fst (pre @ fst b, snd b)) = Stderr m"
      if "IsLevelEnabled lvl FatalLevel"
      using that b3 last_eq [OF m] by simp
  next
    fix e
    assume r: "RunGroup \<in> set (fst (pre @ fst b, snd b))"
      and e: "e \<in> set (fst (pre @ fst b, snd b))"
    from r assms(1) have rb: "RunGroup \<in> set (fst b)" by (auto simp: calm_def)
    with assms(2) have allb: "\<forall>e \<in> set (fst b). \<not> startup_failure_event e \<and> \<not> startup_stderr e"
      unfolding sound_def by blast
    have pre_ok: "\<not> startup_failure_event x \<and> \<not> startup_stderr x" if "x \<in> set pre" for x
      using assms(1) that by (cases x) (auto simp: calm_def is_stderr_def startup_stderr_def)
    from e allb pre_ok show "\<not> startup_failure_event e" by auto
    from e allb pre_ok show "\<not> startup_stderr e" by auto
  next
    fix e
    assume "\<not> IsLevelEnabled lvl FatalLevel" and e: "e \<in> set (fst (pre @ fst b, snd b))"
    with assms show "\<not> is_stderr e" unfolding sound_def calm_def by auto
  qed
qed

lemma sound_andthen:
  assumes "snd a = None \<longrightarrow> calm (fst a)" "snd a \<noteq> None \<longrightarrow> sound lvl a" "sound lvl b"
  shows "sound lvl (andthen a b)"
proof (cases "snd a")
  case None
  then have "andthen a b = (fst a @ fst b, snd b)" by (simp add: andthen_def)
  with sound_prefix [of "fst a" lvl b] assms(1,3) None show ?thesis by simp
next
  case (Some st)
  then have "andthen a b = a" by (simp add: andthen_def)
  with assms(2) Some show ?thesis by simp
qed

lemma listener_shape:
  assumes "reports (TcpListen a (Some err)) (mk err)"
  shows "sound lvl (andthen ([TcpListen a (Some err)], None) (Fatalf lvl (mk err)))"
proof -
  have "andthen ([TcpListen a (Some err)], None) (Fatalf lvl (mk err)) =
        ([] @ TcpListen a (Some err) # written lvl (mk err), Some 1)"
    by (simp add: andthen_simps Fatalf_def)
  moreover have "sound lvl ([] @ TcpListen a (Some err) # written lvl (mk err), Some 1)"
    using assms by (intro sound_fail) (simp_all add: calm_simps)
  ultimately show ?thesis by simp
qed

lemma debug_stage_shape:
  "(snd (debug_stage lvl fl w) = None \<longrightarrow> calm (fst (debug_stage lvl fl w))) \<and>
   (snd (debug_stage lvl fl w) \<noteq> None \<longrightarrow> sound lvl (debug_stage lvl fl w))"
proof (cases "debugenable fl")
  case False
  then show ?thesis by (simp add: debug_stage_def calm_simps)
next
  case True
  show ?thesis
  proof (cases "Listen w [] (debugaddr fl)")
    case (Some err)
    have s: "sound lvl (andthen ([TcpListen (debugaddr fl) (Some err)], None)
        (Fatalf lvl (CannotOpenDebugListener err)))"
      by (rule listener_shape) simp
    have "snd (andthen ([TcpListen (debugaddr fl) (Some err)], None)
        (Fatalf lvl (CannotOpenDebugListener err))) = Some 1"
      by (simp add: andthen_simps Fatalf_def)
    with s True Some show ?thesis by (simp add: debug_stage_def)
  next
    case None
    show ?thesis
    proof (cases "connlimit fl < 0")
      case neg: True
      have "sound lvl ([TcpListen (debugaddr fl) None] @ [MakeChanPanic (connlimit fl)], Some 2)"
        by (rule sound_panic) (simp add: calm_simps is_stderr_def)
      with True None neg show ?thesis by (simp add: debug_stage_def)
    next
      case False
      with True None show ?thesis by (simp add: debug_stage_def calm_simps is_stderr_def)
    qed
  qed
qed

lemma metrics_stage_shape:
  "(snd (metrics_stage lvl fl w) = None \<longrightarrow> calm (fst (metrics_stage lvl fl w))) \<and>
   (snd (metrics_stage lvl fl w) \<noteq> None \<longrightarrow> sound lvl (metrics_stage lvl fl w))"
proof (cases "metricsenable fl")
  case False
  then show ?thesis by (simp add: metrics_stage_def calm_simps)
next
  case True
  show ?thesis
  proof (cases "Listen w (bound_by_debug fl) (metricsaddr fl)")
    case (Some err)
    have s: "sound lvl (andthen ([TcpListen (metricsaddr fl) (Some err)], None)
        (Fatalf lvl (CannotOpenMetricsListener err)))"
      by (rule listener_shape) simp
    have "snd (andthen ([TcpListen (metricsaddr fl) (Some err)], None)
        (Fatalf lvl (CannotOpenMetricsListener err))) = Some 1"
      by (simp add: andthen_simps Fatalf_def)
    with s True Some show ?thesis by (simp add: metrics_stage_def)
  next
    case None
    show ?thesis
    proof (cases "connlimit fl < 0")
      case neg: True
      have "sound lvl ([TcpListen (metricsaddr fl) None] @ [MakeChanPanic (connlimit fl)], Some 2)"
        by (rule sound_panic) (simp add: calm_simps is_stderr_def)
      with True None neg show ?thesis by (simp add: metrics_stage_def)
    next
      case False
      with True None show ?thesis by (simp add: metrics_stage_def calm_simps is_stderr_def)
    qed
  qed
qed

lemma controller_stage_shape:
  "(snd (controller_stage lvl fl w) = None \<longrightarrow> calm (fst (controller_stage lvl fl w))) \<and>
   (snd (controller_stage lvl fl w) \<noteq> None \<longrightarrow> sound lvl (controller_stage lvl fl w))"
proof (cases "fst (kubeclient (K8s w) (kubeconfig fl) (incluster fl))")
  case (Inl err)
  have "sound lvl ([] @ CreateKubeClient (Some err) # written lvl (FailedCreateKubeClient err), Some 1)"
    by (intro sound_fail) (simp_all add: calm_simps)
  with Inl show ?thesis by (simp add: controller_stage_def andthen_simps Fatalf_def)
next
  case (Inr kclient)
  show ?thesis
  proof (cases "fst (originsecrets (ParseOriginSecretsFile w) (originconfig fl))")
    case (Inl err)
    have "sound lvl ([CreateKubeClient None] @ ReadOriginSecrets (Some err) #
        written lvl (FailedParseOriginSecrets err), Some 1)"
      by (intro sound_fail) (simp_all add: calm_simps is_stderr_def)
    with Inr Inl show ?thesis by (simp add: controller_stage_def andthen_simps Fatalf_def)
  next
    case (Inr secretgroups)
    with \<open>fst (kubeclient (K8s w) (kubeconfig fl) (incluster fl)) = Inr kclient\<close>
    show ?thesis by (simp add: controller_stage_def calm_simps is_stderr_def)
  qed
qed

lemma run_stage_sound: "sound lvl (run_stage lvl w)"
proof (cases "GroupRun w")
  case None
  then show ?thesis by (simp add: run_stage_def sound_def startup_stderr_def is_stderr_def)
next
  case (Some err)
  from written_cases [of lvl "ReceivedFatalError err"] Some show ?thesis
    by (auto simp: run_stage_def andthen_simps Fatalf_def sound_def startup_stderr_def
        is_stderr_def is_startup_fatal_def)
qed

lemma serve_sound: "sound lvl (serve lvl fl w)"
  unfolding serve_def
  using debug_stage_shape [of lvl fl w] metrics_stage_shape [of lvl fl w]
    controller_stage_shape [of lvl fl w] run_stage_sound [of lvl w]
  by (intro sound_andthen) blast+

lemma logruslevel_enabled:
  "\<exists>lvl. logruslevel v = Inr lvl \<and> (IsLevelEnabled lvl FatalLevel \<longleftrightarrow> 1 \<le> v)"
proof -
  consider "v < 0" | "v = 0" | "v = 1" | "v = 2" | "v = 3" | "v = 4" | "v = 5" | "5 < v"
    by linarith
  then show ?thesis
    by cases (simp_all add: logruslevel_def index_def AllLevels_def IsLevelEnabled_def)
qed

lemma couple_unfold:
  assumes "FlagParse w = None" "logruslevel (verbose fl) = Inr lvl"
  shows "couple fl w =
    ([CallFlagParse, SetLevel lvl] @ fst (serve lvl fl w), snd (serve lvl fl w))"
  using assms by (simp add: couple_def flag_stage_def andthen_simps)

lemma couple_sound:
  assumes "logruslevel (verbose fl) = Inr lvl"
  shows "sound lvl (couple fl w)"
proof (cases "FlagParse w")
  case None
  have "calm [CallFlagParse, SetLevel lvl]" by (simp add: calm_simps is_stderr_def)
  from sound_prefix [OF this serve_sound [of lvl fl w]] show ?thesis
    by (simp only: couple_unfold [OF None assms])
next
  case (Some st)
  then have "couple fl w = ([CallFlagParse], Some st)"
    by (simp add: couple_def flag_stage_def andthen_simps)
  moreover have "sound lvl ([CallFlagParse], Some st)"
    by (rule sound_calm) (simp add: calm_simps is_stderr_def)
  ultimately show ?thesis by simp
qed


lemma debug_ok_snd: "debug_ok fl w \<Longrightarrow> snd (debug_stage lvl fl w) = None"
  by (auto simp: debug_ok_def debug_stage_def)

lemma metrics_ok_snd: "metrics_ok fl w \<Longrightarrow> snd (metrics_stage lvl fl w) = None"
  by (auto simp: metrics_ok_def metrics_stage_def)

lemma serve_debug_failure:
  assumes "debugenable fl" "Listen w [] (debugaddr fl) = Some err"
  shows "TcpListen (debugaddr fl) (Some err) \<in> set (fst (serve lvl fl w))"
proof -
  have "debug_stage lvl fl w =
      (TcpListen (debugaddr fl) (Some err) # written lvl (CannotOpenDebugListener err), Some 1)"
    using assms by (simp add: debug_stage_def andthen_simps Fatalf_def)
  then show ?thesis by (simp add: serve_def andthen_simps)
qed

lemma serve_metrics_failure:
  assumes "debug_ok fl w" "metricsenable fl"
    "Listen w (bound_by_debug fl) (metricsaddr fl) = Some err"
  shows "TcpListen (metricsaddr fl) (Some err) \<in> set (fst (serve lvl fl w))"
proof -
  have m: "metrics_stage lvl fl w =
      (TcpListen (metricsaddr fl) (Some err) # written lvl (CannotOpenMetricsListener err), Some 1)"
    using assms(2,3) by (simp add: metrics_stage_def andthen_simps Fatalf_def)
  have "fst (serve lvl fl w) =
      fst (debug_stage lvl fl w) @ fst (andthen (metrics_stage lvl fl w)
        (andthen (controller_stage lvl fl w) (run_stage lvl w)))"
    unfolding serve_def by (rule fst_andthen_None) (rule debug_ok_snd [OF assms(1)])
  then show ?thesis by (simp add: m andthen_simps)
qed

lemma serve_past_listeners:
  assumes "debug_ok fl w" "metrics_ok fl w"
  shows "fst (serve lvl fl w) =
      fst (debug_stage lvl fl w) @ fst (metrics_stage lvl fl w) @
      fst (andthen (controller_stage lvl fl w) (run_stage lvl w))"
proof -
  have "fst (serve lvl fl w) =
      fst (debug_stage lvl fl w) @ fst (andthen (metrics_stage lvl fl w)
        (andthen (controller_stage lvl fl w) (run_stage lvl w)))"
    unfolding serve_def by (rule fst_andthen_None) (rule debug_ok_snd [OF assms(1)])
  also have "fst (andthen (metrics_stage lvl fl w)
        (andthen (controller_stage lvl fl w) (run_stage lvl w))) =
      fst (metrics_stage lvl fl w) @
      fst (andthen (controller_stage lvl fl w) (run_stage lvl w))"
    by (rule fst_andthen_None) (rule metrics_ok_snd [OF assms(2)])
  finally show ?thesis .
qed

lemma serve_client_failure:
  assumes "debug_ok fl w" "metrics_ok fl w"
    "fst (kubeclient (K8s w) (kubeconfig fl) (incluster fl)) = Inl err"
  shows "CreateKubeClient (Some err) \<in> set (fst (serve lvl fl w))"
proof -
  have "controller_stage lvl fl w =
      (CreateKubeClient (Some err) # written lvl (FailedCreateKubeClient err), Some 1)"
    using assms(3) by (simp add: controller_stage_def andthen_simps Fatalf_def)
  then show ?thesis
    by (simp add: serve_past_listeners [OF assms(1,2)] andthen_simps)
qed

lemma serve_parse_failure:
  assumes "debug_ok fl w" "metrics_ok fl w" "\<not> client_fails fl w"
    "fst (originsecrets (ParseOriginSecretsFile w) (originconfig fl)) = Inl err"
  shows "ReadOriginSecrets (Some err) \<in> set (fst (serve lvl fl w))"
proof -
  from assms(3) obtain kclient where
    "fst (kubeclient (K8s w) (kubeconfig fl) (incluster fl)) = Inr kclient"
    by (cases "fst (kubeclient (K8s w) (kubeconfig fl) (incluster fl))")
      (simp_all add: client_fails_def)
  then have "controller_stage lvl fl w =
      ([CreateKubeClient None, ReadOriginSecrets (Some err)] @
         written lvl (FailedParseOriginSecrets err), Some 1)"
    using assms(4) by (simp add: controller_stage_def andthen_simps Fatalf_def)
  then show ?thesis
    by (simp add: serve_past_listeners [OF assms(1,2)] andthen_simps)
qed

text \<open>
  Claim C7, as amended. Every startup failure that occurs (a listener that cannot be
  bound, a Kubernetes client that cannot be built, an origin-secret file that cannot be
  parsed) ends the process with status 1 before the run group is started, and when the
  verbosity is at least 1 the trace ends with the fatal entry that reports it, written to
  standard error; at a verbosity of 0 or less nothing is written. Once the run group has
  been started, the trace holds no startup failure and no startup entry. In particular a
  parse failure of the origin-secret file ends the process with status 1, with its entry
  written last when the verbosity is at least 1. Each of these failures does occur, as an
  event of the trace, whenever the branch reaches the call and the call fails.
\<close>

theorem startup_errors_fatal:
  "(\<forall>ev \<in> set (fst (couple fl w)). startup_failure_event ev \<longrightarrow>
      snd (couple fl w) = Some 1 \<and> RunGroup \<notin> set (fst (couple fl w)) \<and>
      (1 \<le> verbose fl \<longrightarrow> (\<exists>m. reports ev m \<and> last (fst (couple fl w)) = Stderr m))) \<and>
   (RunGroup \<in> set (fst (couple fl w)) \<longrightarrow>
      (\<forall>e \<in> set (fst (couple fl w)). \<not> startup_failure_event e \<and> \<not> startup_stderr e)) \<and>
   (verbose fl \<le> 0 \<longrightarrow> (\<forall>e \<in> set (fst (couple fl w)). \<not> is_stderr e)) \<and>
   (ReadOriginSecrets (Some err) \<in> set (fst (couple fl w)) \<longrightarrow>
      snd (couple fl w) = Some 1 \<and>
      (1 \<le> verbose fl \<longrightarrow> last (fst (couple fl w)) = Stderr (FailedParseOriginSecrets err))) \<and>
   (FlagParse w = None \<and> debugenable fl \<and> Listen w [] (debugaddr fl) = Some err \<longrightarrow>
      TcpListen (debugaddr fl) (Some err) \<in> set (fst (couple fl w))) \<and>
   (FlagParse w = None \<and> debug_ok fl w \<and> metricsenable fl \<and>
      Listen w (bound_by_debug fl) (metricsaddr fl) = Some err \<longrightarrow>
      TcpListen (metricsaddr fl) (Some err) \<in> set (fst (couple fl w))) \<and>
   (FlagParse w = None \<and> debug_ok fl w \<and> metrics_ok fl w \<and>
      fst (kubeclient (K8s w) (kubeconfig fl) (incluster fl)) = Inl err \<longrightarrow>
      CreateKubeClient (Some err) \<in> set (fst (couple fl w))) \<and>
   (FlagParse w = None \<and> debug_ok fl w \<and> metrics_ok fl w \<and> \<not> client_fails fl w \<and>
      fst (originsecrets (ParseOriginSecretsFile w) (originconfig fl)) = Inl err \<longrightarrow>
      ReadOriginSecrets (Some err) \<in> set (fst (couple fl w)))"
proof -
  from logruslevel_enabled [of "verbose fl"] obtain lvl where
    l: "logruslevel (verbose fl) = Inr lvl" and
    en: "IsLevelEnabled lvl FatalLevel \<longleftrightarrow> 1 \<le> verbose fl"
    by blast
  have en0: "verbose fl \<le> 0 \<Longrightarrow> \<not> IsLevelEnabled lvl FatalLevel" using en by simp
  note s = couple_sound [OF l, of w, unfolded sound_def]
  have a: "\<forall>ev \<in> set (fst (couple fl w)). startup_failure_event ev \<longrightarrow>
      snd (couple fl w) = Some 1 \<and> RunGroup \<notin> set (fst (couple fl w)) \<and>
      (1 \<le> verbose fl \<longrightarrow> (\<exists>m. reports ev m \<and> last (fst (couple fl w)) = Stderr m))"
    using s en by blast
  have b: "RunGroup \<in> set (fst (couple fl w)) \<longrightarrow>
      (\<forall>e \<in> set (fst (couple fl w)). \<not> startup_failure_event e \<and> \<not> startup_stderr e)"
    using s by blast
  have c: "verbose fl \<le> 0 \<longrightarrow> (\<forall>e \<in> set (fst (couple fl w)). \<not> is_stderr e)"
    using s en0 by blast
  have d: "ReadOriginSecrets (Some err) \<in> set (fst (couple fl w)) \<longrightarrow>
      snd (couple fl w) = Some 1 \<and>
      (1 \<le> verbose fl \<longrightarrow> last (fst (couple fl w)) = Stderr (FailedParseOriginSecrets err))"
  proof
    assume m: "ReadOriginSecrets (Some err) \<in> set (fst (couple fl w))"
    have f: "startup_failure_event (ReadOriginSecrets (Some err))" by simp
    from a m f have
      "snd (couple fl w) = Some 1 \<and>
       (1 \<le> verbose fl \<longrightarrow>
          (\<exists>m. reports (ReadOriginSecrets (Some err)) m \<and> last (fst (couple fl w)) = Stderr m))"
      by blast
    then show "snd (couple fl w) = Some 1 \<and>
      (1 \<le> verbose fl \<longrightarrow> last (fst (couple fl w)) = Stderr (FailedParseOriginSecrets err))"
      by auto
  qed
  have tr: "set (fst (serve lvl fl w)) \<subseteq> set (fst (couple fl w))" if "FlagParse w = None"
    by (simp add: couple_unfold [OF that l] subset_insertI2)
  have e1: "FlagParse w = None \<and> debugenable fl \<and> Listen w [] (debugaddr fl) = Some err \<longrightarrow>
      TcpListen (debugaddr fl) (Some err) \<in> set (fst (couple fl w))"
    using tr serve_debug_failure [of fl w err lvl] by blast
  have e2: "FlagParse w = None \<and> debug_ok fl w \<and> metricsenable fl \<and>
      Listen w (bound_by_debug fl) (metricsaddr fl) = Some err \<longrightarrow>
      TcpListen (metricsaddr fl) (Some err) \<in> set (fst (couple fl w))"
    using tr serve_metrics_failure [of fl w err lvl] by blast
  have e3: "FlagParse w = None \<and> debug_ok fl w \<and> metrics_ok fl w \<and>
      fst (kubeclient (K8s w) (kubeconfig fl) (incluster fl)) = Inl err \<longrightarrow>
      CreateKubeClient (Some err) \<in> set (fst (couple fl w))"
    using tr serve_client_failure [of fl w err lvl] by blast
  have e4: "FlagParse w = None \<and> debug_ok fl w \<and> metrics_ok fl w \<and> \<not> client_fails fl w \<and>
      fst (originsecrets (ParseOriginSecretsFile w) (originconfig fl)) = Inl err \<longrightarrow>
      ReadOriginSecrets (Some err) \<in> set (fst (couple fl w))"
    using tr serve_parse_failure [of fl w err lvl] by blast
  from a b c d e1 e2 e3 e4 show ?thesis by (intro conjI)
qed

lemmas couple_eval =
  couple_def flag_stage_def andthen_def logruslevel_def index_def AllLevels_def serve_def
  debug_stage_def metrics_stage_def controller_stage_def run_stage_def Fatalf_def written_def
  IsLevelEnabled_def kubeclient_def restconfig_def originsecrets_def bound_by_debug_def

lemma couple_fl0_w0:
  "couple fl0 w0 =
     ([CallFlagParse, SetLevel WarnLevel, TcpListen ''0.0.0.0:8080'' None, LimitListener 512,
       CreateKubeClient None, ReadOriginSecrets (Some ''yaml: unmarshal error''),
       Stderr (FailedParseOriginSecrets ''yaml: unmarshal error'')], Some 1)"
  by (simp add: couple_eval fl0_def w0_def k0_def)

lemma couple_fl1_w1:
  "couple fl1 w1 =
     ([CallFlagParse, SetLevel WarnLevel, TcpListen ''0.0.0.0:8080'' None, LimitListener 512,
       TcpListen ''0.0.0.0:8080'' (Some ''address already in use''),
       Stderr (CannotOpenMetricsListener ''address already in use'')], Some 1)"
  by (simp add: couple_eval fl1_def w1_def k0_def)

lemma couple_fl1_w1_quiet:
  "couple (fl1\<lparr>metricsenable := False, verbose := 0\<rparr>) w1 =
     ([CallFlagParse, SetLevel PanicLevel, TcpListen ''0.0.0.0:8080'' None, LimitListener 512,
       CreateKubeClient None, ReadOriginSecrets None, NewController [], RunGroup], None)"
  by (simp add: couple_eval fl1_def w1_def k0_def OriginSecrets_zero_def)

theorem startup_errors_fatal_witness:
  "ReadOriginSecrets (Some ''yaml: unmarshal error'') \<in> set (fst (couple fl0 w0)) \<and>
   startup_failure_event (ReadOriginSecrets (Some ''yaml: unmarshal error'')) \<and>
   1 \<le> verbose fl0 \<and>
   snd (couple fl0 w0) = Some 1 \<and> RunGroup \<notin> set (fst (couple fl0 w0)) \<and>
   last (fst (couple fl0 w0)) = Stderr (FailedParseOriginSecrets ''yaml: unmarshal error'') \<and>
   FlagParse w1 = None \<and> debug_ok fl1 w1 \<and> metricsenable fl1 \<and>
   Listen w1 (bound_by_debug fl1) (metricsaddr fl1) = Some ''address already in use'' \<and>
   TcpListen ''0.0.0.0:8080'' (Some ''address already in use'') \<in> set (fst (couple fl1 w1)) \<and>
   last (fst (couple fl1 w1)) = Stderr (CannotOpenMetricsListener ''address already in use'') \<and>
   verbose (fl1\<lparr>metricsenable := False, verbose := 0\<rparr>) \<le> 0 \<and>
   RunGroup \<in> set (fst (couple (fl1\<lparr>metricsenable := False, verbose := 0\<rparr>) w1)) \<and>
   snd (couple (fl1\<lparr>metricsenable := False, verbose := 0\<rparr>) w1) = None"
proof -
  have h: "FlagParse w1 = None" "debug_ok fl1 w1" "metricsenable fl1"
    "Listen w1 (bound_by_debug fl1) (metricsaddr fl1) = Some ''address already in use''"
    "1 \<le> verbose fl0" "verbose (fl1\<lparr>metricsenable := False, verbose := 0\<rparr>) \<le> 0"
    by (simp_all add: fl0_def fl1_def w1_def debug_ok_def bound_by_debug_def)
  from startup_errors_fatal [of fl0 w0 "''yaml: unmarshal error''"]
    startup_errors_fatal [of fl1 w1 "''address already in use''"]
    startup_errors_fatal [of "fl1\<lparr>metricsenable := False, verbose := 0\<rparr>" w1 "''none''"]
    h
  show ?thesis
    by (simp add: couple_fl0_w0 couple_fl1_w1 couple_fl1_w1_quiet)
qed

text \<open>
  Claim C7, as stated, fails at verbosity 0: the origin-secret file cannot be parsed, the
  process ends with status 1, and nothing has been written for the operator.
\<close>

theorem startup_error_unreported:
  "couple (fl0\<lparr>verbose := 0\<rparr>) w0 =
     ([CallFlagParse, SetLevel PanicLevel, TcpListen ''0.0.0.0:8080'' None, LimitListener 512,
       CreateKubeClient None, ReadOriginSecrets (Some ''yaml: unmarshal error'')], Some 1)"
  by (simp add: couple_eval fl0_def w0_def k0_def)

section \<open>Verification: engine\<close>

subsection \<open>Work Queue\<close>


lemma queue_inv_empty: "queue_inv WorkQueue_empty"
  by (simp add: queue_inv_def WorkQueue_empty_def)

lemma queue_inv_Enqueue: "queue_inv q \<Longrightarrow> queue_inv (Enqueue k q)"
  by (auto simp: queue_inv_def Enqueue_def)

lemma queue_inv_Dequeue: "queue_inv q \<Longrightarrow> Dequeue q = Some (k, q') \<Longrightarrow> queue_inv q'"
  by (auto simp: queue_inv_def Dequeue_def split: list.splits)

lemma queue_inv_MarkDone: "queue_inv q \<Longrightarrow> queue_inv (MarkDone k q)"
  by (auto simp: queue_inv_def MarkDone_def dest: notin_set_remove1)

lemma queue_inv_qstep: "queue_inv q \<Longrightarrow> queue_inv (qstep q e)"
  by (cases e)
    (auto simp: queue_inv_Enqueue queue_inv_MarkDone split: option.splits
      dest: queue_inv_Dequeue)

lemma queue_inv_foldl: "queue_inv q \<Longrightarrow> queue_inv (foldl qstep q evs)"
  by (induction evs arbitrary: q) (simp_all add: queue_inv_qstep)

lemma queue_inv_qrun: "queue_inv (qrun evs)"
  unfolding qrun_def by (rule queue_inv_foldl [OF queue_inv_empty])

lemma distinct_count_list_le: "distinct xs \<Longrightarrow> count_list xs x \<le> 1"
  by (induction xs) auto

lemma distinct_count_list_eq: "distinct xs \<Longrightarrow> x \<in> set xs \<Longrightarrow> count_list xs x = 1"
  by (induction xs) auto

text \<open>
  Claim C1. After every sequence of enqueue, dequeue and mark-done events, each key is in
  flight at most once: the queue never has the same key handed to two workers at a time.
  Distinct keys can be in flight together, as the run with two keys shows.
\<close>

theorem per_key_serialization:
  "count_list (inflight (qrun evs)) k \<le> 1 \<and>
   inflight (qrun [Enq (''ns1'', ''a''), Enq (''ns1'', ''b''), Deq, Deq]) =
     [(''ns1'', ''b''), (''ns1'', ''a'')]"
proof
  have "distinct (inflight (qrun evs))"
    using queue_inv_qrun [of evs] by (simp add: queue_inv_def)
  then show "count_list (inflight (qrun evs)) k \<le> 1" by (rule distinct_count_list_le)
next
  show "inflight (qrun [Enq (''ns1'', ''a''), Enq (''ns1'', ''b''), Deq, Deq]) =
     [(''ns1'', ''b''), (''ns1'', ''a'')]"
    by (simp add: qrun_def WorkQueue_empty_def Enqueue_def Dequeue_def)
qed

lemma qrun_append: "qrun (evs @ evs') = foldl qstep (qrun evs) evs'"
  by (simp add: qrun_def)

lemma Enqueue_idem: "Enqueue k (Enqueue k q) = Enqueue k q"
  by (simp add: Enqueue_def)

lemma Enqueue_pending_id: "k \<in> set (pending q) \<Longrightarrow> k \<notin> set (inflight q) \<Longrightarrow> Enqueue k q = q"
  by (simp add: Enqueue_def)

lemma Enqueue_idle:
  "queue_inv q \<Longrightarrow> k \<notin> set (inflight q) \<Longrightarrow>
   count_list (pending (Enqueue k q)) k = 1 \<and> k \<notin> set (inflight (Enqueue k q))"
  by (auto simp: Enqueue_def queue_inv_def distinct_count_list_eq count_list_0_iff)

lemma mark_kept_qstep:
  "k \<in> set (inflight q) \<Longrightarrow> k \<in> redeliver q \<Longrightarrow> e \<noteq> Done k \<Longrightarrow>
   k \<in> set (inflight (qstep q e)) \<and> k \<in> redeliver (qstep q e)"
  by (cases e)
    (auto simp: Enqueue_def Dequeue_def MarkDone_def split: list.splits)

lemma mark_kept_foldl:
  "k \<in> set (inflight q) \<Longrightarrow> k \<in> redeliver q \<Longrightarrow> Done k \<notin> set evs \<Longrightarrow>
   k \<in> set (inflight (foldl qstep q evs)) \<and> k \<in> redeliver (foldl qstep q evs)"
proof (induction evs arbitrary: q)
  case Nil
  then show ?case by simp
next
  case (Cons e evs)
  from Cons.prems have "e \<noteq> Done k" "Done k \<notin> set evs" by auto
  with Cons.prems(1,2) mark_kept_qstep [of k q e] Cons.IH [of "qstep q e"]
  show ?case by simp
qed

lemma MarkDone_marked:
  assumes "queue_inv q" "k \<in> set (inflight q)" "k \<in> redeliver q"
  shows "k \<notin> set (pending q) \<and> count_list (pending (MarkDone k q)) k = 1 \<and>
         k \<notin> set (inflight (MarkDone k q)) \<and> k \<notin> redeliver (MarkDone k q)"
proof -
  have np: "k \<notin> set (pending q)" and d: "distinct (inflight q)"
    using assms(1,2) by (auto simp: queue_inv_def)
  have c: "count_list (pending q) k = 0" using np by (simp add: count_list_0_iff)
  show ?thesis using assms(2,3) np d c by (simp add: MarkDone_def)
qed

lemma redelivery_after_MarkDone:
  assumes "k \<in> set (inflight (qrun evs))" "Done k \<notin> set evs'"
  shows "k \<notin> set (pending (qrun (evs @ Enq k # evs'))) \<and>
         k \<in> set (inflight (qrun (evs @ Enq k # evs'))) \<and>
         count_list (pending (qrun (evs @ Enq k # evs' @ [Done k]))) k = 1 \<and>
         k \<notin> set (inflight (qrun (evs @ Enq k # evs' @ [Done k]))) \<and>
         k \<notin> redeliver (qrun (evs @ Enq k # evs' @ [Done k]))"
proof -
  let ?q1 = "Enqueue k (qrun evs)"
  let ?q2 = "foldl qstep ?q1 evs'"
  have q1: "k \<in> set (inflight ?q1)" "k \<in> redeliver ?q1"
    using assms(1) by (simp_all add: Enqueue_def)
  have q2: "k \<in> set (inflight ?q2)" "k \<in> redeliver ?q2"
    using mark_kept_foldl [OF q1 assms(2)] by simp_all
  have e2: "qrun (evs @ Enq k # evs') = ?q2" by (simp add: qrun_def)
  have e3: "qrun (evs @ Enq k # evs' @ [Done k]) = MarkDone k ?q2" by (simp add: qrun_def)
  have inv: "queue_inv ?q2" unfolding e2 [symmetric] by (rule queue_inv_qrun)
  from MarkDone_marked [OF inv q2] q2(1) show ?thesis by (simp only: e2 e3) simp
qed

lemma owed_qstep:
  "e \<noteq> Enq k \<Longrightarrow> (if hands_out k q e then 1 else 0) + owed k (qstep q e) \<le> owed k q"
proof (cases e)
  case (Enq k')
  assume "e \<noteq> Enq k"
  with Enq have "k' \<noteq> k" by simp
  then show ?thesis using Enq by (simp add: hands_out_def owed_def Enqueue_def)
next
  case Deq
  then show ?thesis
    by (cases "pending q") (simp_all add: hands_out_def owed_def Dequeue_def)
next
  case (Done k')
  then show ?thesis by (simp add: hands_out_def owed_def MarkDone_def)
qed

lemma handouts_owed:
  "Enq k \<notin> set evs \<Longrightarrow> handouts k q evs + owed k (foldl qstep q evs) \<le> owed k q"
proof (induction evs arbitrary: q)
  case Nil
  then show ?case by simp
next
  case (Cons e evs)
  from Cons.prems have ne: "e \<noteq> Enq k" and rest: "Enq k \<notin> set evs" by auto
  have "handouts k q (e # evs) + owed k (foldl qstep q (e # evs)) =
        (if hands_out k q e then 1 else 0) +
          (handouts k (qstep q e) evs + owed k (foldl qstep (qstep q e) evs))"
    by simp
  also have "\<dots> \<le> (if hands_out k q e then 1 else 0) + owed k (qstep q e)"
    using Cons.IH [OF rest, of "qstep q e"] by simp
  also have "\<dots> \<le> owed k q" using ne by (rule owed_qstep)
  finally show ?case .
qed

lemma owed_le_1: "queue_inv q \<Longrightarrow> owed k q \<le> 1"
proof -
  assume inv: "queue_inv q"
  then have "distinct (pending q)" by (simp add: queue_inv_def)
  then have c: "count_list (pending q) k \<le> 1" by (rule distinct_count_list_le)
  have "count_list (pending q) k = 0" if "k \<in> redeliver q"
    using inv that by (auto simp: queue_inv_def count_list_0_iff)
  with c show ?thesis by (auto simp: owed_def)
qed

lemma handouts_le_1: "Enq k \<notin> set evs' \<Longrightarrow> handouts k (qrun evs) evs' \<le> 1"
  using handouts_owed [of k evs' "qrun evs"] owed_le_1 [OF queue_inv_qrun, of k evs]
  by linarith

text \<open>
  Claim C6. In every reachable queue a key has at most one pending entry and
  \<open>Enqueue\<close> is idempotent; an \<open>Enqueue\<close> of a pending key changes nothing, and an
  \<open>Enqueue\<close> of a key that is not in flight leaves exactly one pending entry for it.
  When \<open>Enqueue\<close> is called for a key in flight, then, whatever events on this and on
  other keys follow before its \<open>MarkDone\<close>, the key stays in flight and out of the
  pending sequence, and right after \<open>MarkDone\<close> it is pending exactly once, no longer
  in flight, with no further redelivery owed. Along any continuation without a new
  \<open>Enqueue\<close> of the key, the key is handed out at most once.
\<close>

theorem enqueue_coalesces:
  "count_list (pending (qrun evs)) k \<le> 1 \<and>
   Enqueue k (Enqueue k (qrun evs)) = Enqueue k (qrun evs) \<and>
   (k \<in> set (pending (qrun evs)) \<longrightarrow> qrun (evs @ [Enq k]) = qrun evs) \<and>
   (k \<notin> set (inflight (qrun evs)) \<longrightarrow>
      count_list (pending (qrun (evs @ [Enq k]))) k = 1 \<and>
      k \<notin> set (inflight (qrun (evs @ [Enq k])))) \<and>
   (k \<in> set (inflight (qrun evs)) \<and> Done k \<notin> set evs' \<longrightarrow>
      k \<notin> set (pending (qrun (evs @ Enq k # evs'))) \<and>
      k \<in> set (inflight (qrun (evs @ Enq k # evs'))) \<and>
      count_list (pending (qrun (evs @ Enq k # evs' @ [Done k]))) k = 1 \<and>
      k \<notin> set (inflight (qrun (evs @ Enq k # evs' @ [Done k]))) \<and>
      k \<notin> redeliver (qrun (evs @ Enq k # evs' @ [Done k]))) \<and>
   (Enq k \<notin> set evs' \<longrightarrow> handouts k (qrun evs) evs' \<le> 1)"
proof -
  note inv = queue_inv_qrun [of evs]
  have "distinct (pending (qrun evs))" using inv by (simp add: queue_inv_def)
  then have a: "count_list (pending (qrun evs)) k \<le> 1" by (rule distinct_count_list_le)
  have "k \<notin> set (inflight (qrun evs))" if "k \<in> set (pending (qrun evs))"
    using inv that by (auto simp: queue_inv_def)
  then have c: "k \<in> set (pending (qrun evs)) \<longrightarrow> qrun (evs @ [Enq k]) = qrun evs"
    by (simp add: qrun_def Enqueue_pending_id)
  have d: "k \<notin> set (inflight (qrun evs)) \<longrightarrow>
      count_list (pending (qrun (evs @ [Enq k]))) k = 1 \<and>
      k \<notin> set (inflight (qrun (evs @ [Enq k])))"
    using Enqueue_idle [OF inv, of k] by (simp add: qrun_def)
  from a c d Enqueue_idem [of k "qrun evs"] redelivery_after_MarkDone [of k evs evs']
    handouts_le_1 [of k evs' evs]
  show ?thesis by blast
qed


theorem enqueue_coalesces_witness:
  "(''ns1'', ''a'') \<in> set (inflight (qrun [Enq (''ns1'', ''a''), Enq (''ns1'', ''b''), Deq, Deq])) \<and>
   Done (''ns1'', ''a'') \<notin> set [Done (''ns1'', ''b''), Enq (''ns1'', ''b''), Enq (''ns1'', ''a'')] \<and>
   pending (qrun ([Enq (''ns1'', ''a''), Enq (''ns1'', ''b''), Deq, Deq] @
      Enq (''ns1'', ''a'') #
      [Done (''ns1'', ''b''), Enq (''ns1'', ''b''), Enq (''ns1'', ''a'')])) = [(''ns1'', ''b'')] \<and>
   pending (qrun ([Enq (''ns1'', ''a''), Enq (''ns1'', ''b''), Deq, Deq] @
      Enq (''ns1'', ''a'') #
      [Done (''ns1'', ''b''), Enq (''ns1'', ''b''), Enq (''ns1'', ''a'')] @
      [Done (''ns1'', ''a'')])) = [(''ns1'', ''b''), (''ns1'', ''a'')] \<and>
   Enq (''ns1'', ''a'') \<notin> set [Deq, Deq, Done (''ns1'', ''a''), Deq, Done (''ns1'', ''b'')] \<and>
   handouts (''ns1'', ''a'') (qrun [Enq (''ns1'', ''a''), Enq (''ns1'', ''b'')])
     [Deq, Deq, Done (''ns1'', ''a''), Deq, Done (''ns1'', ''b'')] = 1 \<and>
   (''ns1'', ''a'') \<in> set (pending (qrun [Enq (''ns1'', ''a''), Enq (''ns1'', ''b'')])) \<and>
   qrun ([Enq (''ns1'', ''a''), Enq (''ns1'', ''b'')] @ [Enq (''ns1'', ''a'')]) =
     qrun [Enq (''ns1'', ''a''), Enq (''ns1'', ''b'')]"
proof -
  have e: "qrun [Enq (''ns1'', ''a''), Enq (''ns1'', ''b''), Deq, Deq] =
      \<lparr>pending = [], inflight = [(''ns1'', ''b''), (''ns1'', ''a'')], redeliver = {}\<rparr>"
    by (simp add: qrun_def WorkQueue_empty_def Enqueue_def Dequeue_def)
  have f: "qrun [Enq (''ns1'', ''a''), Enq (''ns1'', ''b'')] =
      \<lparr>pending = [(''ns1'', ''a''), (''ns1'', ''b'')], inflight = [], redeliver = {}\<rparr>"
    by (simp add: qrun_def WorkQueue_empty_def Enqueue_def)
  have h: "handouts (''ns1'', ''a'') (qrun [Enq (''ns1'', ''a''), Enq (''ns1'', ''b'')])
     [Deq, Deq, Done (''ns1'', ''a''), Deq, Done (''ns1'', ''b'')] = 1"
    unfolding f by (simp add: hands_out_def Dequeue_def MarkDone_def)
  have p1: "pending (qrun ([Enq (''ns1'', ''a''), Enq (''ns1'', ''b''), Deq, Deq] @
      Enq (''ns1'', ''a'') #
      [Done (''ns1'', ''b''), Enq (''ns1'', ''b''), Enq (''ns1'', ''a'')])) = [(''ns1'', ''b'')]"
    unfolding qrun_append e by (simp add: Enqueue_def MarkDone_def)
  have p2: "pending (qrun ([Enq (''ns1'', ''a''), Enq (''ns1'', ''b''), Deq, Deq] @
      Enq (''ns1'', ''a'') #
      [Done (''ns1'', ''b''), Enq (''ns1'', ''b''), Enq (''ns1'', ''a'')] @
      [Done (''ns1'', ''a'')])) = [(''ns1'', ''b''), (''ns1'', ''a'')]"
    unfolding qrun_append e by (simp add: Enqueue_def MarkDone_def)
  have i: "(''ns1'', ''a'') \<in> set (inflight (qrun [Enq (''ns1'', ''a''), Enq (''ns1'', ''b''), Deq, Deq]))"
    unfolding e by simp
  have j: "(''ns1'', ''a'') \<in> set (pending (qrun [Enq (''ns1'', ''a''), Enq (''ns1'', ''b'')]))"
    unfolding f by simp
  from enqueue_coalesces [of "[Enq (''ns1'', ''a''), Enq (''ns1'', ''b''), Deq, Deq]"
      "(''ns1'', ''a'')" "[Done (''ns1'', ''b''), Enq (''ns1'', ''b''), Enq (''ns1'', ''a'')]"]
    enqueue_coalesces [of "[Enq (''ns1'', ''a''), Enq (''ns1'', ''b'')]"
      "(''ns1'', ''a'')" "[Deq, Deq, Done (''ns1'', ''a''), Deq, Done (''ns1'', ''b'')]"]
    h p1 p2 i j
  show ?thesis by simp
qed

subsection \<open>Secret Resolver\<close>

lemma scan_find:
  "scan wild host gs cand =
     (case find (\<lambda>g. exact_match g host) gs of
        Some g \<Rightarrow> Some (secret g)
      | None \<Rightarrow>
          (case cand of
             Some c \<Rightarrow> Some c
           | None \<Rightarrow> map_option secret (find (\<lambda>g. wildcard_match wild g host) gs)))"
  by (induction gs arbitrary: cand) (auto split: option.splits)

text \<open>
  Claim C3. For every host, the resolver returns the secret reference of the first group,
  in configured order, that has an exact rule for the host; when no group has one, that of
  the first group with a matching wildcard rule, so an exact match wins over a wildcard
  group listed earlier; when no group matches, the default secret reference; and when there
  is no default either it fails with \<open>NoOriginSecret\<close>, in which case the reconciler
  opens no tunnel for the host.
\<close>

theorem secret_resolution:
  "resolve wild gs d host =
     (case find (\<lambda>g. exact_match g host) gs of
        Some g \<Rightarrow> Inr (secret g)
      | None \<Rightarrow>
          (case find (\<lambda>g. wildcard_match wild g host) gs of
             Some g \<Rightarrow> Inr (secret g)
           | None \<Rightarrow> (case d of Some r \<Rightarrow> Inr r | None \<Rightarrow> Inl NoOriginSecret))) \<and>
   (resolve wild gs d host = Inl NoOriginSecret \<longrightarrow>
      reconcile_host wild gs d host = LeaveAbsent NoOriginSecret) \<and>
   (\<forall>s. reconcile_host wild gs d host = OpenTunnel host s \<longrightarrow>
      resolve wild gs d host = Inr s)"
  by (auto simp: resolve_def reconcile_host_def scan_find split: option.splits sum.splits)

lemma gs0_billing:
  "find (\<lambda>g. exact_match g ''billing.example.com'') gs0 =
     Some \<lparr>rules = [Exact ''billing.example.com''], secret = (''edge'', ''billing-cert'')\<rparr>"
  by (simp add: gs0_def exact_match_def)

lemma gs0_other:
  "find (\<lambda>g. exact_match g ''example.org'') gs0 = None"
  "find (\<lambda>g. wildcard_match wild_suffix g ''example.org'') gs0 = None"
  by (simp_all add: gs0_def exact_match_def wildcard_match_def wild_suffix_def)

theorem secret_resolution_witness:
  "resolve wild_suffix gs0 (Some (''edge'', ''default-cert'')) ''billing.example.com'' =
     Inr (''edge'', ''billing-cert'') \<and>
   resolve wild_suffix gs0 None ''example.org'' = Inl NoOriginSecret \<and>
   reconcile_host wild_suffix gs0 None ''example.org'' = LeaveAbsent NoOriginSecret"
proof -
  have a: "resolve wild_suffix gs0 (Some (''edge'', ''default-cert'')) ''billing.example.com'' =
      Inr (''edge'', ''billing-cert'')"
    using secret_resolution [of wild_suffix gs0 "Some (''edge'', ''default-cert'')"
        "''billing.example.com''"]
    by (simp only: gs0_billing) simp
  have b: "resolve wild_suffix gs0 None ''example.org'' = Inl NoOriginSecret"
    using secret_resolution [of wild_suffix gs0 None "''example.org''"]
    by (simp only: gs0_other) simp
  have c: "reconcile_host wild_suffix gs0 None ''example.org'' = LeaveAbsent NoOriginSecret"
    using secret_resolution [of wild_suffix gs0 None "''example.org''"] b by blast
  from a b c show ?thesis by blast
qed

subsection \<open>Origin secret configuration\<close>

text \<open>
  Claim C9. For the empty path \<open>originsecrets\<close> returns the empty \<open>OriginSecrets\<close>
  value and no error, and hands no path to the file parser; so a run without
  \<open>--origin-secret-config\<close> has no parse failure at startup, and secret resolution over
  the resulting groups, of which there are none, falls through to the default secret
  reference.
\<close>

theorem originsecrets_empty_path:
  "originsecrets P [] = (Inr OriginSecrets_zero, []) \<and>
   groups OriginSecrets_zero = [] \<and>
   (originconfig fl = [] \<longrightarrow> \<not> parse_fails fl w) \<and>
   resolve wild (groups OriginSecrets_zero) d host =
     (case d of Some r \<Rightarrow> Inr r | None \<Rightarrow> Inl NoOriginSecret)"
  by (simp add: originsecrets_def OriginSecrets_zero_def parse_fails_def resolve_def)

theorem originsecrets_empty_path_witness:
  "originconfig (fl0\<lparr>originconfig := []\<rparr>) = [] \<and>
   \<not> parse_fails (fl0\<lparr>originconfig := []\<rparr>) w0 \<and>
   snd (originsecrets (ParseOriginSecretsFile w0) []) = [] \<and>
   resolve wild_suffix (groups OriginSecrets_zero) (Some (''edge'', ''default-cert''))
     ''app.example.com'' = Inr (''edge'', ''default-cert'')"
  using originsecrets_empty_path [of "ParseOriginSecretsFile w0" "fl0\<lparr>originconfig := []\<rparr>" w0
      wild_suffix "Some (''edge'', ''default-cert'')" "''app.example.com''"]
  by (simp add: fl0_def OriginSecrets_zero_def)


subsection \<open>Repair counter\<close>

lemma tstep_into_Running:
  "state s \<noteq> Running \<Longrightarrow> state (tstep n s e) = Running \<Longrightarrow> count (tstep n s e) = 0"
  by (cases e) (auto simp: on_failure_def split: if_splits)

lemma tstep_Running_inv:
  "(state s = Running \<longrightarrow> count s = 0) \<Longrightarrow>
   state (tstep n s e) = Running \<Longrightarrow> count (tstep n s e) = 0"
  by (cases e) (auto simp: on_failure_def split: if_splits)

lemma trun_Running_inv:
  "(state s = Running \<longrightarrow> count s = 0) \<Longrightarrow>
   state (trun n s evs) = Running \<Longrightarrow> count (trun n s evs) = 0"
  unfolding trun_def
proof (induction evs arbitrary: s)
  case Nil
  then show ?case by simp
next
  case (Cons e evs)
  have "state (tstep n s e) = Running \<longrightarrow> count (tstep n s e) = 0"
    using Cons.prems(1) tstep_Running_inv [of s n e] by blast
  from Cons.IH [OF this] Cons.prems(2) show ?case by simp
qed

lemma tstep_unhealthy_mono:
  "unhealthy s \<Longrightarrow> unhealthy (tstep n s e) \<Longrightarrow> count s \<le> count (tstep n s e)"
  by (cases e) (auto simp: unhealthy_def on_failure_def split: if_splits)

lemma stays_unhealthy_head: "stays_unhealthy n s evs \<Longrightarrow> unhealthy s"
  by (cases evs) simp_all

lemma trun_unhealthy_mono:
  "stays_unhealthy n s evs \<Longrightarrow> count s \<le> count (trun n s evs)"
  unfolding trun_def
proof (induction evs arbitrary: s)
  case Nil
  then show ?case by simp
next
  case (Cons e evs)
  from Cons.prems have u: "unhealthy s" and r: "stays_unhealthy n (tstep n s e) evs"
    by simp_all
  have "count s \<le> count (tstep n s e)"
    using u stays_unhealthy_head [OF r] by (rule tstep_unhealthy_mono)
  also have "\<dots> \<le> count (foldl (tstep n) (tstep n s e) evs)" by (rule Cons.IH [OF r])
  finally show ?case by simp
qed

text \<open>
  Claim C4. Along every run of reconcile events during which the key stays unhealthy
  (\<open>Repairing\<close> or \<open>Failed\<close>), the repair count at the end is at least the count at
  the start; every transition into \<open>Running\<close> leaves the count at exactly 0; and on
  every run from the initial status the count is 0 whenever the state is \<open>Running\<close>.
\<close>

theorem repair_count_monotone_reset:
  "(stays_unhealthy n s evs \<longrightarrow> count s \<le> count (trun n s evs)) \<and>
   (state s \<noteq> Running \<and> state (tstep n s e) = Running \<longrightarrow> count (tstep n s e) = 0) \<and>
   (state (trun n TunnelStatus_initial evs) = Running \<longrightarrow>
      count (trun n TunnelStatus_initial evs) = 0)"
  using trun_unhealthy_mono [of n s evs] tstep_into_Running [of s n e]
    trun_Running_inv [of TunnelStatus_initial n evs]
  by (simp add: TunnelStatus_initial_def)

theorem repair_count_monotone_reset_witness:
  "stays_unhealthy 3 \<lparr>state = Repairing, count = 1\<rparr> [ConnectionFailed, ConnectionFailed, ConnectionFailed] \<and>
   trun 3 \<lparr>state = Repairing, count = 1\<rparr> [ConnectionFailed, ConnectionFailed, ConnectionFailed] =
     \<lparr>state = Failed, count = 4\<rparr> \<and>
   tstep 3 \<lparr>state = Repairing, count = 2\<rparr> Established = \<lparr>state = Running, count = 0\<rparr> \<and>
   trun 3 TunnelStatus_initial [Observed, Established, ConnectionFailed, ConnectionFailed, Established] =
     \<lparr>state = Running, count = 0\<rparr>"
  using repair_count_monotone_reset [of 3 "\<lparr>state = Repairing, count = 1\<rparr>"
      "[ConnectionFailed, ConnectionFailed, ConnectionFailed]" Established]
    repair_count_monotone_reset [of 3 "\<lparr>state = Repairing, count = 2\<rparr>"
      "[Observed, Established, ConnectionFailed, ConnectionFailed, Established]" Established]
  by (simp add: trun_def on_failure_def unhealthy_def TunnelStatus_initial_def)

subsection \<open>Repair Scheduler\<close>








subsection \<open>Tag Builder\<close>


end
